theory Spec2Isabelle
  imports Complex_Main
begin

section \<open>JavaScript values as the matcher sees them\<close>

text \<open>
  The engine of \<^verbatim>\<open>src/index.ts\<close> treats every pattern element, value and
  result as an opaque JavaScript value. It does four things with such a value: it
  compares two of them with \<^verbatim>\<open>===\<close> or \<^verbatim>\<open>!==\<close>, it tests one for
  truthiness, it reads the properties \<^verbatim>\<open>operator\<close> and \<^verbatim>\<open>elements\<close>,
  and it calls \<^verbatim>\<open>some\<close> or \<^verbatim>\<open>every\<close> on what \<^verbatim>\<open>elements\<close> holds.

  A number is an IEEE double. Only its equality and its truthiness are ever used, so a
  finite double stands for its exact rational value; the two zeros, the two infinities
  and NaN are constructors of their own. \<open>Finite 0\<close> is the positive zero.
\<close>

datatype number = NaN | PosInf | NegInf | NegZero | Finite rat

text \<open>
  Primitives carry their content. An object is a reference: \<open>Obj a\<close> is the
  address \<open>a\<close> of an object on the heap, so two objects are the same value exactly
  when they are the same address. A symbol is known by its identity alone.
\<close>

datatype jsval =
    Undefined
  | Null
  | Bool bool
  | Num number
  | Str string
  | BigInt int
  | Symbol nat
  | Obj nat

text \<open>
  A heap object has own data properties, in insertion order, and is an array when
  \<open>array\<close> holds its elements (dense, no holes). Accessor properties, proxies and
  function-valued properties are outside the model, and so is a changed prototype: a
  property that is not an own property reads as \<^verbatim>\<open>undefined\<close>.

  The heap is the list of the objects allocated so far, and an address is an index
  into it. An address beyond the heap names no object: it has no property and is no
  array.
\<close>

datatype object = Object (props: "(string \<times> jsval) list") (array: "jsval list option")

type_synonym heap = "object list"

datatype error = TypeError

definition lookup :: "heap \<Rightarrow> nat \<Rightarrow> object option" where
  "lookup h a = (if a < length h then Some (h ! a) else None)"

text \<open>Allocation takes the next free address; nothing is ever freed or overwritten.\<close>

definition alloc :: "heap \<Rightarrow> object \<Rightarrow> nat \<times> heap" where
  "alloc h ob = (length h, h @ [ob])"

subsection \<open>Strict equality and truthiness\<close>

text \<open>
  \<^verbatim>\<open>x === y\<close> on numbers: NaN equals nothing, the two zeros equal each other,
  every other number equals itself only.
\<close>

fun num_eq :: "number \<Rightarrow> number \<Rightarrow> bool" where
  "num_eq NaN y = False"
| "num_eq x NaN = False"
| "num_eq NegZero (Finite q) = (q = 0)"
| "num_eq (Finite q) NegZero = (q = 0)"
| "num_eq x y = (x = y)"

text \<open>
  \<^verbatim>\<open>x === y\<close>: values of different types are never equal; numbers compare
  by \<open>num_eq\<close>; strings, booleans and big integers by content; \<^verbatim>\<open>null\<close> and
  \<^verbatim>\<open>undefined\<close> each equal themselves; objects and symbols by identity.
\<close>

definition strict_eq :: "jsval \<Rightarrow> jsval \<Rightarrow> bool" where
  "strict_eq x y = (case (x, y) of (Num a, Num b) \<Rightarrow> num_eq a b | _ \<Rightarrow> x = y)"

text \<open>ToBoolean: the falsy values are listed, everything else is truthy.\<close>

fun truthy :: "jsval \<Rightarrow> bool" where
  "truthy Undefined = False"
| "truthy Null = False"
| "truthy (Bool b) = b"
| "truthy (Num n) = (n \<noteq> NaN \<and> n \<noteq> NegZero \<and> n \<noteq> Finite 0)"
| "truthy (Str s) = (s \<noteq> [])"
| "truthy (BigInt k) = (k \<noteq> 0)"
| "truthy (Symbol n) = True"
| "truthy (Obj a) = True"

subsection \<open>Property reads and array methods\<close>

fun nullish :: "jsval \<Rightarrow> bool" where
  "nullish Undefined = True"
| "nullish Null = True"
| "nullish v = False"

text \<open>
  \<open>prop_of h v k\<close> reads property \<open>k\<close> of a value that is not nullish. A primitive
  has no property named \<^verbatim>\<open>operator\<close> or \<^verbatim>\<open>elements\<close>; an object has the
  own properties the heap records for it.
\<close>

fun prop_of :: "heap \<Rightarrow> jsval \<Rightarrow> string \<Rightarrow> jsval" where
  "prop_of h (Obj a) k =
     (case lookup h a of
        None \<Rightarrow> Undefined
      | Some ob \<Rightarrow> (case map_of (props ob) k of None \<Rightarrow> Undefined | Some x \<Rightarrow> x))"
| "prop_of h v k = Undefined"

text \<open>\<^verbatim>\<open>v?.k\<close>: a nullish receiver gives \<^verbatim>\<open>undefined\<close> instead of raising.\<close>

definition opt_chain :: "heap \<Rightarrow> jsval \<Rightarrow> string \<Rightarrow> jsval" where
  "opt_chain h v k = (if nullish v then Undefined else prop_of h v k)"

text \<open>
  \<^verbatim>\<open>const { operator, elements } = v\<close>: destructuring a nullish value raises a
  TypeError.
\<close>

definition destructure :: "heap \<Rightarrow> jsval \<Rightarrow> error + (jsval \<times> jsval)" where
  "destructure h v =
     (if nullish v then Inl TypeError
      else Inr (prop_of h v ''operator'', prop_of h v ''elements''))"

definition as_array :: "heap \<Rightarrow> jsval \<Rightarrow> jsval list option" where
  "as_array h v =
     (case v of
        Obj a \<Rightarrow> (case lookup h a of None \<Rightarrow> None | Some ob \<Rightarrow> array ob)
      | _ \<Rightarrow> None)"

text \<open>
  \<^verbatim>\<open>xs.some(f)\<close> and \<^verbatim>\<open>xs.every(f)\<close>: a receiver that is not an array has
  no such method (or, when nullish, no properties at all), and the call raises a
  TypeError. The callbacks of the source are pure comparisons.
\<close>

definition array_some :: "heap \<Rightarrow> jsval \<Rightarrow> (jsval \<Rightarrow> bool) \<Rightarrow> error + bool" where
  "array_some h v f = (case as_array h v of None \<Rightarrow> Inl TypeError | Some xs \<Rightarrow> Inr (list_ex f xs))"

definition array_every :: "heap \<Rightarrow> jsval \<Rightarrow> (jsval \<Rightarrow> bool) \<Rightarrow> error + bool" where
  "array_every h v f = (case as_array h v of None \<Rightarrow> Inl TypeError | Some xs \<Rightarrow> Inr (list_all f xs))"

text \<open>\<^verbatim>\<open>xs[i]\<close> on an array: out of range reads \<^verbatim>\<open>undefined\<close>.\<close>

definition index :: "jsval list \<Rightarrow> nat \<Rightarrow> jsval" where
  "index xs i = (if i < length xs then xs ! i else Undefined)"

section \<open>The engine\<close>

subsection \<open>The wildcard and the operator constructors\<close>

definition WILDCARD_VALUE :: jsval where
  "WILDCARD_VALUE = Str ''__primitive__match__wildcard__value__''"

text \<open>The exported alias \<^verbatim>\<open>_\<close> of the source, which is not a name here.\<close>

definition underscore :: jsval where
  "underscore = WILDCARD_VALUE"

text \<open>
  \<^verbatim>\<open>operation(operator, elements)\<close> builds a fresh object with the two
  properties; \<^verbatim>\<open>either(...elements)\<close> and \<^verbatim>\<open>neither(...elements)\<close> first
  collect their arguments into a fresh array (the rest parameter).
\<close>

definition operation :: "string \<Rightarrow> jsval \<Rightarrow> heap \<Rightarrow> jsval \<times> heap" where
  "operation operator elements h =
     (let (a, h') = alloc h (Object [(''operator'', Str operator), (''elements'', elements)] None)
      in (Obj a, h'))"

definition either :: "jsval list \<Rightarrow> heap \<Rightarrow> jsval \<times> heap" where
  "either elements h =
     (let (a, h') = alloc h (Object [] (Some elements))
      in operation ''either'' (Obj a) h')"

definition neither :: "jsval list \<Rightarrow> heap \<Rightarrow> jsval \<times> heap" where
  "neither elements h =
     (let (a, h') = alloc h (Object [] (Some elements))
      in operation ''neither'' (Obj a) h')"

subsection \<open>Match results\<close>

text \<open>
  \<^verbatim>\<open>{ matches: true, result }\<close> and \<^verbatim>\<open>{ matches: false }\<close>, the two variants
  of \<^verbatim>\<open>MatchResult\<close>.
\<close>

datatype MatchResult = PositiveMatch jsval | NegativeMatch

text \<open>
  A matcher is what \<^verbatim>\<open>when(pattern, result)\<close> returns: a function of the value
  tuple. It reads the heap as it is when the matcher is called.
\<close>

type_synonym matcher = "heap \<Rightarrow> jsval list \<Rightarrow> error + MatchResult"

subsection \<open>The arm builder\<close>

text \<open>
  One pass of the \<^verbatim>\<open>for\<close> loop of \<^verbatim>\<open>when\<close>, lines 71 to 86: it either
  goes on to the next position (\<^verbatim>\<open>continue\<close>, or falling out of the body), returns
  from the matcher, or raises. Line 86 is reached on two paths, with no operator and
  with an operator that no \<^verbatim>\<open>case\<close> of the \<^verbatim>\<open>switch\<close> takes; \<open>literal\<close>
  names it.
\<close>

datatype step = Continue | Return MatchResult

definition when_body :: "jsval list \<Rightarrow> heap \<Rightarrow> jsval list \<Rightarrow> nat \<Rightarrow> error + step" where
  "when_body pattern h values i =
     (let literal =
            (if \<not> strict_eq (index pattern i) (index values i)
             then Inr (Return NegativeMatch) else Inr Continue)
      in if strict_eq (index pattern i) WILDCARD_VALUE then Inr Continue
         else if truthy (opt_chain h (index pattern i) ''operator'') then
           (case destructure h (index pattern i) of
              Inl e \<Rightarrow> Inl e
            | Inr (operator, elements) \<Rightarrow>
                if strict_eq operator (Str ''either'') then
                  (case array_some h elements (\<lambda>elem. strict_eq elem (index values i)) of
                     Inl e \<Rightarrow> Inl e
                   | Inr b \<Rightarrow> if b then Inr Continue else Inr (Return NegativeMatch))
                else if strict_eq operator (Str ''neither'') then
                  (case array_every h elements (\<lambda>elem. \<not> strict_eq elem (index values i)) of
                     Inl e \<Rightarrow> Inl e
                   | Inr b \<Rightarrow> if b then Inr Continue else Inr (Return NegativeMatch))
                else literal)
         else literal)"

text \<open>The loop over the positions \<open>i, i + 1, ...\<close> of the pattern, and line 89.\<close>

function (domintros) when_loop :: "jsval list \<Rightarrow> jsval \<Rightarrow> heap \<Rightarrow> jsval list \<Rightarrow> nat \<Rightarrow> error + MatchResult" where
  "when_loop pattern result h values i =
     (if i < length pattern then
        (case when_body pattern h values i of
           Inl e \<Rightarrow> Inl e
         | Inr (Return m) \<Rightarrow> Inr m
         | Inr Continue \<Rightarrow> when_loop pattern result h values (Suc i))
      else Inr (PositiveMatch result))"
  by pat_completeness auto
termination
  by (relation "measure (\<lambda>(pattern, result, h, values, i). length pattern - i)") auto

text \<open>
  The equation of the loop rewrites every call of it, the one inside itself too, so it
  is used one position at a time.
\<close>

declare when_loop.simps [simp del]

text \<open>
  \<^verbatim>\<open>when(pattern, result)\<close> (the name \<open>when\<close> is reserved here): the arity check
  of line 68, then the loop from position 0.
\<close>

definition when_arm :: "jsval list \<Rightarrow> jsval \<Rightarrow> matcher" where
  "when_arm pattern result h values =
     (if length pattern \<noteq> length values then Inr NegativeMatch
      else when_loop pattern result h values 0)"

subsection \<open>The dispatcher\<close>

text \<open>
  \<^verbatim>\<open>whens.map((when) => when(values))\<close>: every arm is called, in order; the first
  one that raises ends the whole call.
\<close>

fun map_whens :: "matcher list \<Rightarrow> heap \<Rightarrow> jsval list \<Rightarrow> error + MatchResult list" where
  "map_whens [] h values = Inr []"
| "map_whens (w # ws) h values =
     (case w h values of
        Inl e \<Rightarrow> Inl e
      | Inr m \<Rightarrow> (case map_whens ws h values of Inl e \<Rightarrow> Inl e | Inr ms \<Rightarrow> Inr (m # ms)))"

text \<open>
  The callback of \<^verbatim>\<open>find\<close>, \<^verbatim>\<open>({ matches, result }) => matches && result\<close>,
  read as a boolean: a negative match has \<^verbatim>\<open>matches\<close> false.
\<close>

fun selected :: "MatchResult \<Rightarrow> bool" where
  "selected (PositiveMatch result) = truthy result"
| "selected NegativeMatch = False"

text \<open>\<^verbatim>\<open>found?.result\<close>: the result of the match found, or \<^verbatim>\<open>undefined\<close>.\<close>

fun result_of :: "MatchResult option \<Rightarrow> jsval" where
  "result_of None = Undefined"
| "result_of (Some (PositiveMatch result)) = result"
| "result_of (Some NegativeMatch) = Undefined"

definition match :: "jsval list \<Rightarrow> matcher list \<Rightarrow> heap \<Rightarrow> error + jsval" where
  "match values whens h =
     (case map_whens whens h values of
        Inl e \<Rightarrow> Inl e
      | Inr outcomes \<Rightarrow> Inr (result_of (find selected outcomes)))"

section \<open>Vocabulary of the properties\<close>

text \<open>
  A pattern element is dispatched as a set-membership descriptor when its
  \<^verbatim>\<open>operator\<close> property is truthy and is one of the two tags of the
  \<^verbatim>\<open>switch\<close>. Every other element that is not the wildcard is a literal.
\<close>

definition tagged :: "heap \<Rightarrow> jsval \<Rightarrow> bool" where
  "tagged h p =
     (truthy (opt_chain h p ''operator'') \<and>
      (prop_of h p ''operator'' = Str ''either'' \<or> prop_of h p ''operator'' = Str ''neither''))"

text \<open>
  A well-formed descriptor: an object whose \<^verbatim>\<open>operator\<close> is the given tag
  and whose \<^verbatim>\<open>elements\<close> is an array holding the given values, as
  \<^verbatim>\<open>operation\<close> builds it.
\<close>

definition is_operation :: "heap \<Rightarrow> jsval \<Rightarrow> string \<Rightarrow> jsval list \<Rightarrow> bool" where
  "is_operation h d operator elements =
     (prop_of h d ''operator'' = Str operator \<and>
      as_array h (prop_of h d ''elements'') = Some elements)"

text \<open>
  A documented pattern element: a literal, the wildcard, or a well-formed descriptor.
  The only elements left out are those tagged \<^verbatim>\<open>'either'\<close> or
  \<^verbatim>\<open>'neither'\<close> whose \<^verbatim>\<open>elements\<close> is not an array.
\<close>

definition well_formed :: "heap \<Rightarrow> jsval \<Rightarrow> bool" where
  "well_formed h p = (tagged h p \<longrightarrow> as_array h (prop_of h p ''elements'') \<noteq> None)"

section \<open>Properties\<close>

subsection \<open>Strict equality and property reads\<close>

lemma strict_eq_Str [simp]: "strict_eq x (Str s) = (x = Str s)"
  by (cases x) (auto simp: strict_eq_def)

lemma strict_eq_Str_left [simp]: "strict_eq (Str s) y = (y = Str s)"
  by (cases y) (auto simp: strict_eq_def)

lemma strict_eq_Obj [simp]: "strict_eq (Obj a) y = (y = Obj a)"
  by (cases y) (auto simp: strict_eq_def)

lemma prop_of_truthy_Obj: "truthy (opt_chain h p k) \<Longrightarrow> \<exists>a. p = Obj a"
  by (cases p) (auto simp: opt_chain_def)

subsection \<open>One position\<close>

lemma when_body_Return: "when_body pattern h values i = Inr (Return m) \<Longrightarrow> m = NegativeMatch"
  by (auto simp: when_body_def Let_def destructure_def array_some_def array_every_def
      split: if_splits sum.splits prod.splits option.splits)

lemma when_body_wildcard:
  "index pattern i = WILDCARD_VALUE \<Longrightarrow> when_body pattern h values i = Inr Continue"
  by (simp add: when_body_def WILDCARD_VALUE_def)

lemma when_body_literal:
  assumes "index pattern i \<noteq> WILDCARD_VALUE" and "\<not> tagged h (index pattern i)"
  shows "when_body pattern h values i =
    Inr (if strict_eq (index pattern i) (index values i) then Continue else Return NegativeMatch)"
proof (cases "truthy (opt_chain h (index pattern i) ''operator'')")
  case False
  with assms(1) show ?thesis
    by (simp add: when_body_def WILDCARD_VALUE_def)
next
  case True
  then obtain a where a: "index pattern i = Obj a"
    using prop_of_truthy_Obj by blast
  from True assms(2) have "prop_of h (index pattern i) ''operator'' \<noteq> Str ''either''"
    and "prop_of h (index pattern i) ''operator'' \<noteq> Str ''neither''"
    by (auto simp: tagged_def)
  with True a show ?thesis
    by (simp add: when_body_def WILDCARD_VALUE_def destructure_def)
qed

lemma is_operation_Obj: "is_operation h d operator elements \<Longrightarrow> \<exists>a. d = Obj a"
  by (cases d) (auto simp: is_operation_def)

lemma when_body_either:
  assumes "is_operation h (index pattern i) ''either'' elements"
  shows "when_body pattern h values i =
    Inr (if list_ex (\<lambda>elem. strict_eq elem (index values i)) elements
         then Continue else Return NegativeMatch)"
proof -
  obtain a where a: "index pattern i = Obj a"
    using assms is_operation_Obj by blast
  have op: "prop_of h (Obj a) ''operator'' = Str ''either''"
    and el: "as_array h (prop_of h (Obj a) ''elements'') = Some elements"
    using assms a by (simp_all add: is_operation_def)
  have "truthy (opt_chain h (Obj a) ''operator'')"
    using op by (simp add: opt_chain_def)
  then show ?thesis
    using a op el
    by (simp add: when_body_def WILDCARD_VALUE_def destructure_def array_some_def)
qed

lemma when_body_neither:
  assumes "is_operation h (index pattern i) ''neither'' elements"
  shows "when_body pattern h values i =
    Inr (if list_all (\<lambda>elem. \<not> strict_eq elem (index values i)) elements
         then Continue else Return NegativeMatch)"
proof -
  obtain a where a: "index pattern i = Obj a"
    using assms is_operation_Obj by blast
  have op: "prop_of h (Obj a) ''operator'' = Str ''neither''"
    and el: "as_array h (prop_of h (Obj a) ''elements'') = Some elements"
    using assms a by (simp_all add: is_operation_def)
  have "truthy (opt_chain h (Obj a) ''operator'')"
    using op by (simp add: opt_chain_def)
  then show ?thesis
    using a op el
    by (simp add: when_body_def WILDCARD_VALUE_def destructure_def array_every_def)
qed

subsection \<open>The loop\<close>

lemma when_loop_all_Continue:
  "(\<And>j. i \<le> j \<Longrightarrow> j < length pattern \<Longrightarrow> when_body pattern h vs j = Inr Continue)
   \<Longrightarrow> when_loop pattern result h vs i = Inr (PositiveMatch result)"
proof (induction pattern result h vs i rule: when_loop.induct)
  case (1 pattern result h vs i)
  note [simp] = when_loop.simps [of pattern result h vs i]
  show ?case
  proof (cases "i < length pattern")
    case False
    then show ?thesis by simp
  next
    case True
    then have b: "when_body pattern h vs i = Inr Continue"
      using "1.prems" by simp
    have "when_loop pattern result h vs (Suc i) = Inr (PositiveMatch result)"
      using "1.IH" [OF True b] "1.prems" by simp
    with True b show ?thesis by simp
  qed
qed

lemma when_loop_first_Return:
  "i \<le> k \<Longrightarrow> k < length pattern \<Longrightarrow> when_body pattern h vs k = Inr (Return m)
   \<Longrightarrow> (\<And>j. i \<le> j \<Longrightarrow> j < k \<Longrightarrow> \<exists>s. when_body pattern h vs j = Inr s)
   \<Longrightarrow> when_loop pattern result h vs i = Inr NegativeMatch"
proof (induction pattern result h vs i rule: when_loop.induct)
  case (1 pattern result h vs i)
  note [simp] = when_loop.simps [of pattern result h vs i]
  have lt: "i < length pattern" using "1.prems" by simp
  show ?case
  proof (cases "i = k")
    case True
    with "1.prems" lt show ?thesis
      by (simp add: when_loop.simps [of pattern result h vs k] when_body_Return)
  next
    case False
    then have ik: "i < k" using "1.prems" by simp
    then obtain s where s: "when_body pattern h vs i = Inr s"
      using "1.prems"(4) [of i] by auto
    show ?thesis
    proof (cases s)
      case Continue
      have "when_loop pattern result h vs (Suc i) = Inr NegativeMatch"
        using "1.IH" [OF lt s Continue] "1.prems" ik by simp
      with lt s Continue show ?thesis by simp
    next
      case (Return m')
      with lt s show ?thesis
        by (simp add: when_body_Return)
    qed
  qed
qed

lemma when_loop_range:
  "when_loop pattern result h vs i \<in> {Inl TypeError, Inr NegativeMatch, Inr (PositiveMatch result)}"
proof (induction pattern result h vs i rule: when_loop.induct)
  case (1 pattern result h vs i)
  note [simp] = when_loop.simps [of pattern result h vs i]
  show ?case
  proof (cases "i < length pattern")
    case False
    then show ?thesis by simp
  next
    case True
    show ?thesis
    proof (cases "when_body pattern h vs i")
      case (Inl e)
      with True show ?thesis by (cases e) simp
    next
      case (Inr s)
      show ?thesis
      proof (cases s)
        case Continue
        with True Inr "1.IH" show ?thesis by simp
      next
        case (Return m)
        with True Inr show ?thesis by (simp add: when_body_Return)
      qed
    qed
  qed
qed

lemma when_loop_no_raise:
  "(\<And>j. i \<le> j \<Longrightarrow> j < length pattern \<Longrightarrow> \<exists>s. when_body pattern h vs j = Inr s)
   \<Longrightarrow> \<exists>m. when_loop pattern result h vs i = Inr m"
proof (induction pattern result h vs i rule: when_loop.induct)
  case (1 pattern result h vs i)
  note [simp] = when_loop.simps [of pattern result h vs i]
  show ?case
  proof (cases "i < length pattern")
    case False
    then show ?thesis by simp
  next
    case True
    then obtain s where s: "when_body pattern h vs i = Inr s"
      using "1.prems" [of i] by auto
    show ?thesis
    proof (cases s)
      case Continue
      have "\<exists>m. when_loop pattern result h vs (Suc i) = Inr m"
        using "1.IH" [OF True s Continue] "1.prems" by simp
      with True s Continue show ?thesis by simp
    next
      case (Return m)
      with True s show ?thesis by simp
    qed
  qed
qed

subsection \<open>Arity\<close>

text \<open>
  Claim C2. When the value tuple and the pattern tuple differ in length, the matcher
  returns the negative match; it does not raise.
\<close>

theorem when_arity_mismatch:
  "length values \<noteq> length pattern \<Longrightarrow> when_arm pattern result h values = Inr NegativeMatch"
  by (simp add: when_arm_def)

text \<open>The first test of the repository: four patterns against no value.\<close>

theorem when_arity_mismatch_witness:
  "length ([] :: jsval list) \<noteq> length [Num (Finite 1), Num (Finite 2), Num (Finite 3), Num (Finite 4)]
   \<and> when_arm [Num (Finite 1), Num (Finite 2), Num (Finite 3), Num (Finite 4)] (Str ''result'') [] []
       = Inr NegativeMatch"
  using when_arity_mismatch [of "[]" "[Num (Finite 1), Num (Finite 2), Num (Finite 3), Num (Finite 4)]"
      "Str ''result''" "[]"]
  by simp

subsection \<open>Positions and the whole arm\<close>

lemma index_nth: "i < length xs \<Longrightarrow> index xs i = xs ! i"
  by (simp add: index_def)

lemma index_update_other: "j \<noteq> k \<Longrightarrow> index (xs[k := v]) j = index xs j"
  by (simp add: index_def)

lemma when_body_update_other:
  assumes "j \<noteq> k"
  shows "when_body pattern h (vs[k := v]) j = when_body pattern h vs j"
proof -
  have "index (vs[k := v]) j = index vs j"
    using assms by (rule index_update_other)
  then show ?thesis
    by (simp only: when_body_def)
qed

lemma when_loop_cong:
  "(\<And>j. i \<le> j \<Longrightarrow> j < length pattern \<Longrightarrow> when_body pattern h vs j = when_body pattern h ws j)
   \<Longrightarrow> when_loop pattern result h vs i = when_loop pattern result h ws i"
proof (induction pattern result h vs i rule: when_loop.induct)
  case (1 pattern result h vs i)
  note unfold = when_loop.simps [of pattern result h vs i] when_loop.simps [of pattern result h ws i]
  show ?case
  proof (cases "i < length pattern")
    case False
    then show ?thesis by (simp add: unfold)
  next
    case True
    then have b: "when_body pattern h ws i = when_body pattern h vs i"
      using "1.prems" by simp
    show ?thesis
    proof (cases "when_body pattern h vs i")
      case (Inl e)
      with True b show ?thesis by (simp add: unfold)
    next
      case (Inr s)
      show ?thesis
      proof (cases s)
        case Continue
        have "when_loop pattern result h vs (Suc i) = when_loop pattern result h ws (Suc i)"
          using "1.IH" [OF True Inr Continue] "1.prems" by simp
        with True b Inr Continue show ?thesis by (simp add: unfold)
      next
        case (Return m)
        with True b Inr show ?thesis by (simp add: unfold)
      qed
    qed
  qed
qed

subsection \<open>Literal tuples\<close>

text \<open>
  Claim C3. When the two tuples have the same length and, at every position, the
  pattern element is a literal (not dispatched as a descriptor) that is strictly equal
  to the value, the matcher returns the positive match with the result given to
  \<^verbatim>\<open>when\<close>.
\<close>

theorem when_all_literal_equal:
  assumes "length values = length pattern"
    and "\<forall>i<length pattern. strict_eq (pattern ! i) (values ! i) \<and> \<not> tagged h (pattern ! i)"
  shows "when_arm pattern result h values = Inr (PositiveMatch result)"
proof -
  have "when_body pattern h values j = Inr Continue" if j: "j < length pattern" for j
  proof (cases "index pattern j = WILDCARD_VALUE")
    case True
    then show ?thesis by (rule when_body_wildcard)
  next
    case False
    have "\<not> tagged h (index pattern j)" and "strict_eq (index pattern j) (index values j)"
      using assms j by (simp_all add: index_nth)
    with False show ?thesis
      by (simp add: when_body_literal)
  qed
  then have "when_loop pattern result h values 0 = Inr (PositiveMatch result)"
    by (simp add: when_loop_all_Continue)
  with assms(1) show ?thesis
    by (simp add: when_arm_def)
qed

text \<open>A test of the repository: four numbers against the same four numbers.\<close>

theorem when_all_literal_equal_witness:
  "when_arm [Num (Finite 1), Num (Finite 2), Num (Finite 3), Num (Finite 4)] (Str ''result'') []
     [Num (Finite 1), Num (Finite 2), Num (Finite 3), Num (Finite 4)]
   = Inr (PositiveMatch (Str ''result''))"
proof -
  let ?p = "[Num (Finite 1), Num (Finite 2), Num (Finite 3), Num (Finite 4)]"
  have "\<forall>i<length ?p. strict_eq (?p ! i) (?p ! i) \<and> \<not> tagged [] (?p ! i)"
    by (simp add: All_less_Suc strict_eq_def tagged_def opt_chain_def)
  then show ?thesis
    using when_all_literal_equal [of ?p ?p "[]" "Str ''result''"] by simp
qed

subsection \<open>The wildcard\<close>

text \<open>
  Claim C4. A position whose pattern element is the exported wildcard matches
  whatever the value there is: the loop goes on to the next position, the outcome of
  the whole matcher does not depend on the value at that position, and
  \<^verbatim>\<open>when([_], r)\<close> on any single value is the positive match with \<open>r\<close>.
\<close>

theorem wildcard_position:
  assumes "i < length pattern" and "pattern ! i = underscore"
  shows "when_body pattern h values i = Inr Continue
    \<and> when_arm pattern result h (values[i := v]) = when_arm pattern result h values
    \<and> when_arm [underscore] result h [v] = Inr (PositiveMatch result)"
proof -
  have w: "index pattern i = WILDCARD_VALUE"
    using assms by (simp add: index_nth underscore_def)
  have b: "when_body pattern h vs i = Inr Continue" for vs
    using w by (rule when_body_wildcard)
  have "when_body pattern h (values[i := v]) j = when_body pattern h values j" for j
    by (cases "j = i") (simp_all add: b when_body_update_other)
  then have "when_loop pattern result h (values[i := v]) 0 = when_loop pattern result h values 0"
    by (intro when_loop_cong)
  then have same: "when_arm pattern result h (values[i := v]) = when_arm pattern result h values"
    by (simp add: when_arm_def)
  have "when_body [underscore] h [v] j = Inr Continue" if "j < length [underscore]" for j
    using that by (simp add: when_body_wildcard index_def underscore_def)
  then have "when_loop [underscore] result h [v] 0 = Inr (PositiveMatch result)"
    by (intro when_loop_all_Continue) simp
  then have one: "when_arm [underscore] result h [v] = Inr (PositiveMatch result)"
    by (simp add: when_arm_def)
  from b same one show ?thesis by simp
qed

theorem wildcard_position_witness:
  "when_body [Num (Finite 1), underscore] [] [Num (Finite 1), Str ''a''] 1 = Inr Continue
   \<and> when_arm [Num (Finite 1), underscore] (Str ''R'') [] ([Num (Finite 1), Str ''a''][1 := Null])
     = when_arm [Num (Finite 1), underscore] (Str ''R'') [] [Num (Finite 1), Str ''a'']
   \<and> when_arm [underscore] (Str ''R'') [] [Null] = Inr (PositiveMatch (Str ''R''))"
  using wildcard_position [of 1 "[Num (Finite 1), underscore]" "[]" "[Num (Finite 1), Str ''a'']"
      "Str ''R''" Null]
  by simp

subsection \<open>Descriptors\<close>

lemma lookup_append: "a < length h \<Longrightarrow> lookup (h @ h') a = lookup h a"
  by (simp add: lookup_def nth_append)

lemma lookup_Some_less: "lookup h a = Some ob \<Longrightarrow> a < length h"
  by (simp add: lookup_def split: if_splits)

lemma either_is_operation:
  "is_operation (snd (either elements h)) (fst (either elements h)) ''either'' elements"
  by (simp add: either_def operation_def alloc_def is_operation_def lookup_def as_array_def
      nth_append)

lemma neither_is_operation:
  "is_operation (snd (neither elements h)) (fst (neither elements h)) ''neither'' elements"
  by (simp add: neither_def operation_def alloc_def is_operation_def lookup_def as_array_def
      nth_append)

text \<open>A descriptor stays what it is when more objects are allocated after it.\<close>

lemma is_operation_append:
  assumes "is_operation h d operator elements"
  shows "is_operation (h @ h') d operator elements"
proof -
  obtain a where d: "d = Obj a"
    using assms is_operation_Obj by blast
  have op: "prop_of h (Obj a) ''operator'' = Str operator"
    and el: "as_array h (prop_of h (Obj a) ''elements'') = Some elements"
    using assms d by (simp_all add: is_operation_def)
  from op obtain ob where ob: "lookup h a = Some ob"
    by (cases "lookup h a") simp_all
  then have a: "lookup (h @ h') a = Some ob"
    by (simp add: lookup_append lookup_Some_less)
  from el obtain b where b: "prop_of h (Obj a) ''elements'' = Obj b"
    by (cases "prop_of h (Obj a) ''elements''") (simp_all add: as_array_def)
  with el obtain ar where ar: "lookup h b = Some ar"
    by (cases "lookup h b") (simp_all add: as_array_def)
  then have "lookup (h @ h') b = Some ar"
    by (simp add: lookup_append lookup_Some_less)
  with a ob op el b ar d show ?thesis
    by (simp add: is_operation_def as_array_def)
qed

text \<open>
  Claim C5. At a position whose pattern element is a well-formed
  \<^verbatim>\<open>either\<close> descriptor, the position matches exactly when the value is strictly
  equal to at least one listed element; for \<^verbatim>\<open>neither\<close>, exactly when it is
  strictly equal to none. With no element listed, \<^verbatim>\<open>either()\<close> matches no value
  and \<^verbatim>\<open>neither()\<close> matches every value. A position that does not match makes the
  whole matcher return the negative match, when no earlier position raised. The two
  constructors build such descriptors.
\<close>

theorem either_neither_position:
  assumes "i < length pattern" and "length values = length pattern"
  shows "(is_operation h (pattern ! i) ''either'' elements \<longrightarrow>
            when_body pattern h values i =
              Inr (if \<exists>e\<in>set elements. strict_eq e (values ! i) then Continue
                   else Return NegativeMatch))
    \<and> (is_operation h (pattern ! i) ''neither'' elements \<longrightarrow>
            when_body pattern h values i =
              Inr (if \<forall>e\<in>set elements. \<not> strict_eq e (values ! i) then Continue
                   else Return NegativeMatch))
    \<and> (is_operation h (pattern ! i) ''either'' [] \<longrightarrow>
            when_body pattern h values i = Inr (Return NegativeMatch))
    \<and> (is_operation h (pattern ! i) ''neither'' [] \<longrightarrow>
            when_body pattern h values i = Inr Continue)
    \<and> (when_body pattern h values i = Inr (Return NegativeMatch)
          \<and> (\<forall>j<i. \<exists>s. when_body pattern h values j = Inr s) \<longrightarrow>
            when_arm pattern result h values = Inr NegativeMatch)
    \<and> is_operation (snd (either elements h0)) (fst (either elements h0)) ''either'' elements
    \<and> is_operation (snd (neither elements h0)) (fst (neither elements h0)) ''neither'' elements"
proof -
  have p: "index pattern i = pattern ! i" and v: "index values i = values ! i"
    using assms by (simp_all add: index_nth)
  have e: "when_body pattern h values i =
      Inr (if \<exists>e\<in>set es. strict_eq e (values ! i) then Continue else Return NegativeMatch)"
    if "is_operation h (pattern ! i) ''either'' es" for es
    using that when_body_either [of h pattern i es "values"] p v
    by (simp add: list_ex_iff)
  have n: "when_body pattern h values i =
      Inr (if \<forall>e\<in>set es. \<not> strict_eq e (values ! i) then Continue else Return NegativeMatch)"
    if "is_operation h (pattern ! i) ''neither'' es" for es
    using that when_body_neither [of h pattern i es "values"] p v
    by (simp add: list_all_iff)
  have arm: "when_arm pattern result h values = Inr NegativeMatch"
    if "when_body pattern h values i = Inr (Return NegativeMatch)"
      and "\<forall>j<i. \<exists>s. when_body pattern h values j = Inr s"
  proof -
    have "when_loop pattern result h values 0 = Inr NegativeMatch"
      using that assms(1) by (intro when_loop_first_Return [of 0 i]) simp_all
    with assms(2) show ?thesis
      by (simp add: when_arm_def)
  qed
  from e [of elements] n [of elements] e [of "[]"] n [of "[]"] arm
  show ?thesis
    by (simp add: either_is_operation neither_is_operation)
qed

text \<open>
  The scenarios of the specification: \<^verbatim>\<open>either(1, 2)\<close> against 2 and against 3.
\<close>

theorem either_neither_position_witness:
  "when_body [fst (either [Num (Finite 1), Num (Finite 2)] [])]
       (snd (either [Num (Finite 1), Num (Finite 2)] [])) [Num (Finite 2)] 0 = Inr Continue
   \<and> when_arm [fst (either [Num (Finite 1), Num (Finite 2)] [])] (Str ''R'')
       (snd (either [Num (Finite 1), Num (Finite 2)] [])) [Num (Finite 3)] = Inr NegativeMatch"
proof -
  let ?es = "[Num (Finite 1), Num (Finite 2)]"
  let ?d = "fst (either ?es [])" and ?h = "snd (either ?es [])"
  have d: "is_operation ?h ([?d] ! 0) ''either'' ?es"
    by (simp add: either_is_operation)
  note t = either_neither_position [of 0 "[?d]" _ ?h ?es "Str ''R''" "[]"]
  have "when_body [?d] ?h [Num (Finite 2)] 0 = Inr Continue"
    using t [of "[Num (Finite 2)]"] d by (simp add: strict_eq_def)
  moreover have "when_body [?d] ?h [Num (Finite 3)] 0 = Inr (Return NegativeMatch)"
    using t [of "[Num (Finite 3)]"] d by (simp add: strict_eq_def)
  then have "when_arm [?d] (Str ''R'') ?h [Num (Finite 3)] = Inr NegativeMatch"
    using t [of "[Num (Finite 3)]"] by simp
  ultimately show ?thesis by simp
qed

subsection \<open>Literals\<close>

lemma num_eq_NaN_right [simp]: "\<not> num_eq x NaN"
  by (cases x) simp_all

lemma strict_eq_iff:
  "strict_eq x y =
     (x = y \<and> x \<noteq> Num NaN \<or> x = Num NegZero \<and> y = Num (Finite 0)
      \<or> x = Num (Finite 0) \<and> y = Num NegZero)"
proof (cases "\<exists>a b. x = Num a \<and> y = Num b")
  case True
  then obtain a b where "x = Num a" and "y = Num b" by blast
  then show ?thesis
    by (cases a; cases b) (auto simp: strict_eq_def)
next
  case False
  then show ?thesis
    by (cases x; cases y) (auto simp: strict_eq_def)
qed

text \<open>
  Claim C6. At a position whose pattern element is a literal (not the wildcard, not
  dispatched as a descriptor), the position matches exactly when the element and the
  value are strictly equal. Strict equality holds only between values of the same type
  and the same value (the two zeros of the doubles being the same number); NaN is
  equal to nothing, itself included; an object is equal to itself only, so two objects
  at different addresses are unequal even when the heap holds the same contents for both.
\<close>

theorem literal_position:
  assumes "i < length pattern" and "length values = length pattern"
    and "pattern ! i \<noteq> WILDCARD_VALUE" and "\<not> tagged h (pattern ! i)"
  shows "when_body pattern h values i =
           Inr (if strict_eq (pattern ! i) (values ! i) then Continue else Return NegativeMatch)
    \<and> strict_eq x y =
          (x = y \<and> x \<noteq> Num NaN \<or> x = Num NegZero \<and> y = Num (Finite 0)
           \<or> x = Num (Finite 0) \<and> y = Num NegZero)
    \<and> \<not> strict_eq (Num NaN) (Num NaN)
    \<and> strict_eq (Obj a) (Obj b) = (a = b)
    \<and> (a \<noteq> b \<and> lookup h a = lookup h b \<longrightarrow> \<not> strict_eq (Obj a) (Obj b))"
proof -
  have "index pattern i \<noteq> WILDCARD_VALUE" and "\<not> tagged h (index pattern i)"
    using assms by (simp_all add: index_nth)
  then have "when_body pattern h values i =
      Inr (if strict_eq (index pattern i) (index values i) then Continue else Return NegativeMatch)"
    by (rule when_body_literal)
  then have "when_body pattern h values i =
      Inr (if strict_eq (pattern ! i) (values ! i) then Continue else Return NegativeMatch)"
    using assms by (simp add: index_nth)
  moreover have "\<not> strict_eq (Num NaN) (Num NaN)"
    by (simp add: strict_eq_def)
  ultimately show ?thesis
    using strict_eq_iff [of x y] by auto
qed

text \<open>
  Two objects \<^verbatim>\<open>{}\<close> at the addresses 0 and 1: the pattern holding the first
  does not match the second, and matches the first.
\<close>

theorem literal_position_witness:
  "when_body [Obj 0] [Object [] None, Object [] None] [Obj 1] 0 = Inr (Return NegativeMatch)
   \<and> when_body [Obj 0] [Object [] None, Object [] None] [Obj 0] 0 = Inr Continue
   \<and> lookup [Object [] None, Object [] None] 0 = lookup [Object [] None, Object [] None] 1
   \<and> \<not> strict_eq (Obj 0) (Obj 1)"
proof -
  let ?h = "[Object [] None, Object [] None]"
  have t: "\<not> tagged ?h ([Obj 0] ! 0)" and w: "[Obj 0] ! 0 \<noteq> WILDCARD_VALUE"
    by (simp_all add: tagged_def opt_chain_def lookup_def WILDCARD_VALUE_def)
  have l: "lookup ?h 0 = lookup ?h 1"
    by (simp add: lookup_def)
  show ?thesis
    using literal_position [of 0 "[Obj 0]" "[Obj 1]" ?h Null Null 0 1]
      literal_position [of 0 "[Obj 0]" "[Obj 0]" ?h Null Null 0 1] t w l
    by simp
qed

subsection \<open>An operator tag that is neither of the two\<close>

text \<open>
  Claim C10. A pattern element whose \<^verbatim>\<open>operator\<close> property is truthy and is
  neither \<^verbatim>\<open>'either'\<close> nor \<^verbatim>\<open>'neither'\<close> falls through the
  \<^verbatim>\<open>switch\<close> to the literal comparison of line 86: it is an object, the position
  matches exactly when the value is that same object, and nothing is raised.
\<close>

theorem unknown_operator_position:
  assumes "i < length pattern" and "length values = length pattern"
    and "truthy (opt_chain h (pattern ! i) ''operator'')"
    and "prop_of h (pattern ! i) ''operator'' \<noteq> Str ''either''"
    and "prop_of h (pattern ! i) ''operator'' \<noteq> Str ''neither''"
  shows "(\<exists>a. pattern ! i = Obj a)
    \<and> when_body pattern h values i =
          Inr (if values ! i = pattern ! i then Continue else Return NegativeMatch)"
proof -
  obtain a where a: "pattern ! i = Obj a"
    using assms(3) prop_of_truthy_Obj by blast
  have "index pattern i \<noteq> WILDCARD_VALUE" and "\<not> tagged h (index pattern i)"
    using assms a by (simp_all add: index_nth tagged_def WILDCARD_VALUE_def)
  then have "when_body pattern h values i =
      Inr (if strict_eq (index pattern i) (index values i) then Continue else Return NegativeMatch)"
    by (rule when_body_literal)
  with assms(1,2) a show ?thesis
    by (simp add: index_nth)
qed

text \<open>
  The object \<^verbatim>\<open>{ operator: 'both' }\<close> at address 0 and another one with the same
  contents at address 1.
\<close>

theorem unknown_operator_position_witness:
  "when_body [Obj 0] [Object [(''operator'', Str ''both'')] None, Object [(''operator'', Str ''both'')] None]
       [Obj 0] 0 = Inr Continue
   \<and> when_body [Obj 0] [Object [(''operator'', Str ''both'')] None, Object [(''operator'', Str ''both'')] None]
       [Obj 1] 0 = Inr (Return NegativeMatch)"
proof -
  let ?h = "[Object [(''operator'', Str ''both'')] None, Object [(''operator'', Str ''both'')] None]"
  have t: "truthy (opt_chain ?h ([Obj 0] ! 0) ''operator'')"
    and e: "prop_of ?h ([Obj 0] ! 0) ''operator'' \<noteq> Str ''either''"
    and n: "prop_of ?h ([Obj 0] ! 0) ''operator'' \<noteq> Str ''neither''"
    by (simp_all add: opt_chain_def lookup_def)
  show ?thesis
    using unknown_operator_position [of 0 "[Obj 0]" "[Obj 0]" ?h, OF _ _ t e n]
      unknown_operator_position [of 0 "[Obj 0]" "[Obj 1]" ?h, OF _ _ t e n]
    by simp
qed

subsection \<open>The wildcard is a string\<close>

text \<open>
  Claim C9, as the source has it. The wildcard test of line 71 is a comparison of
  string contents. A pattern element is taken as the wildcard exactly when it is a
  string with the text of \<^verbatim>\<open>WILDCARD_VALUE\<close>: the exported \<^verbatim>\<open>_\<close> is that
  string, and so is every equal string, whoever built it. An element that is not that
  string is never taken as the wildcard: unless it is dispatched as a descriptor, its
  position matches only a value strictly equal to it.
\<close>

theorem wildcard_by_content:
  "strict_eq p WILDCARD_VALUE = (p = Str ''__primitive__match__wildcard__value__'')
   \<and> underscore = Str ''__primitive__match__wildcard__value__''
   \<and> (i < length pattern \<and> pattern ! i = Str ''__primitive__match__wildcard__value__'' \<longrightarrow>
        when_body pattern h values i = Inr Continue)
   \<and> (i < length pattern \<and> length values = length pattern
        \<and> pattern ! i \<noteq> Str ''__primitive__match__wildcard__value__''
        \<and> \<not> tagged h (pattern ! i) \<longrightarrow>
        when_body pattern h values i =
          Inr (if strict_eq (pattern ! i) (values ! i) then Continue else Return NegativeMatch))"
proof -
  have "when_body pattern h values i = Inr Continue"
    if "i < length pattern" and "pattern ! i = Str ''__primitive__match__wildcard__value__''"
    using that by (intro when_body_wildcard) (simp add: index_nth WILDCARD_VALUE_def)
  moreover have "when_body pattern h values i =
      Inr (if strict_eq (pattern ! i) (values ! i) then Continue else Return NegativeMatch)"
    if "i < length pattern" and "length values = length pattern"
      and "pattern ! i \<noteq> Str ''__primitive__match__wildcard__value__''"
      and "\<not> tagged h (pattern ! i)"
    using that when_body_literal [of pattern i h "values"]
    by (simp add: index_nth WILDCARD_VALUE_def)
  ultimately show ?thesis
    by (simp add: WILDCARD_VALUE_def underscore_def)
qed

text \<open>
  A string a caller puts together from two halves is taken as the wildcard; the
  string \<^verbatim>\<open>'_'\<close> is not.
\<close>

theorem wildcard_by_content_witness:
  "when_body [Str (''__primitive__match__'' @ ''wildcard__value__'')] [] [Num (Finite 5)] 0
     = Inr Continue
   \<and> when_body [Str ''_''] [] [Num (Finite 5)] 0 = Inr (Return NegativeMatch)
   \<and> when_body [Str ''_''] [] [Str ''_''] 0 = Inr Continue"
proof -
  have t: "\<not> tagged [] ([Str ''_''] ! 0)"
    by (simp add: tagged_def opt_chain_def)
  have n: "[Str ''_''] ! 0 \<noteq> Str ''__primitive__match__wildcard__value__''"
    by simp
  note w = wildcard_by_content [of Null 0 _ "[]", THEN conjunct2, THEN conjunct2]
  have "when_body [Str (''__primitive__match__'' @ ''wildcard__value__'')] [] [Num (Finite 5)] 0
      = Inr Continue"
    using w [of "[Str (''__primitive__match__'' @ ''wildcard__value__'')]" "[Num (Finite 5)]",
        THEN conjunct1]
    by simp
  moreover have "when_body [Str ''_''] [] [Num (Finite 5)] 0 = Inr (Return NegativeMatch)"
    using w [of "[Str ''_'']" "[Num (Finite 5)]", THEN conjunct2] t n
    by simp
  moreover have "when_body [Str ''_''] [] [Str ''_''] 0 = Inr Continue"
    using w [of "[Str ''_'']" "[Str ''_'']", THEN conjunct2] t n
    by simp
  ultimately show ?thesis by simp
qed

text \<open>
  Claim C9, as stated, fails: a string built by the caller, independently of the
  exported \<^verbatim>\<open>_\<close>, is treated as the wildcard. As a literal it would not match
  the number 5, to which it is not strictly equal; the arm matches all the same.
\<close>

theorem caller_string_is_wildcard:
  "when_arm [Str (''__primitive__match__'' @ ''wildcard__value__'')] (Str ''R'') [] [Num (Finite 5)]
     = Inr (PositiveMatch (Str ''R''))
   \<and> \<not> strict_eq (Str (''__primitive__match__'' @ ''wildcard__value__'')) (Num (Finite 5))"
  by (simp add: when_arm_def when_loop.simps [of _ _ _ _ 0] when_loop.simps [of _ _ _ _ "Suc 0"]
      when_body_def index_def WILDCARD_VALUE_def)

subsection \<open>The dispatcher\<close>

lemma map_whens_Inr_iff:
  "map_whens ws h vs = Inr ms \<longleftrightarrow> list_all2 (\<lambda>w m. w h vs = Inr m) ws ms"
proof (induction ws arbitrary: ms)
  case Nil
  then show ?case by auto
next
  case (Cons w ws)
  show ?case
  proof (cases "w h vs")
    case (Inl e)
    then show ?thesis by (simp add: list_all2_Cons1)
  next
    case (Inr m)
    show ?thesis
    proof (cases "map_whens ws h vs")
      case (Inl e)
      then have "\<not> list_all2 (\<lambda>w m. w h vs = Inr m) ws ms'" for ms'
        using Cons.IH [of ms'] by simp
      with Inl Inr show ?thesis by (simp add: list_all2_Cons1)
    next
      case tail: (Inr ms')
      then have "list_all2 (\<lambda>w m. w h vs = Inr m) ws ms'' \<longleftrightarrow> ms'' = ms'" for ms''
        using Cons.IH [of ms''] by auto
      with tail Inr show ?thesis by (auto simp: list_all2_Cons1)
    qed
  qed
qed

lemma map_whens_total:
  assumes "\<forall>w\<in>set ws. \<exists>m. w h vs = Inr m"
  shows "\<exists>ms. map_whens ws h vs = Inr ms"
  using assms
proof (induction ws)
  case Nil
  then show ?case by simp
next
  case (Cons w ws)
  then obtain m ms where "w h vs = Inr m" and "map_whens ws h vs = Inr ms"
    by auto
  then show ?case by simp
qed

lemma selected_iff: "selected m \<longleftrightarrow> (\<exists>r. m = PositiveMatch r \<and> truthy r)"
  by (cases m) simp_all

text \<open>
  Claim C1. When no arm raises, \<^verbatim>\<open>match(values)(arms)\<close> returns the result of the
  first arm, in list order, whose outcome is positive with a truthy result: an earlier
  arm that is positive with a falsy result is passed over like a negative one. When no
  arm qualifies it returns \<^verbatim>\<open>undefined\<close>. The values 0, the empty string,
  \<^verbatim>\<open>false\<close>, \<^verbatim>\<open>null\<close>, \<^verbatim>\<open>undefined\<close> and NaN are falsy.
\<close>

theorem match_first_qualifying:
  assumes "\<forall>w\<in>set whens. \<exists>m. w h values = Inr m"
  shows "(\<forall>k r. k < length whens \<and> (whens ! k) h values = Inr (PositiveMatch r) \<and> truthy r
            \<and> (\<forall>j<k. \<forall>r'. (whens ! j) h values = Inr (PositiveMatch r') \<longrightarrow> \<not> truthy r')
          \<longrightarrow> match values whens h = Inr r)
    \<and> ((\<forall>k<length whens. \<forall>r'. (whens ! k) h values = Inr (PositiveMatch r') \<longrightarrow> \<not> truthy r')
          \<longrightarrow> match values whens h = Inr Undefined)
    \<and> \<not> truthy (Num (Finite 0)) \<and> \<not> truthy (Str '''') \<and> \<not> truthy (Bool False)
    \<and> \<not> truthy Null \<and> \<not> truthy Undefined \<and> \<not> truthy (Num NaN)"
proof -
  obtain ms where ms: "map_whens whens h values = Inr ms"
    using assms map_whens_total by blast
  then have len: "length ms = length whens"
    and nth: "\<And>k. k < length whens \<Longrightarrow> (whens ! k) h values = Inr (ms ! k)"
    by (simp_all add: map_whens_Inr_iff list_all2_conv_all_nth)
  have m: "match values whens h = Inr (result_of (find selected ms))"
    using ms by (simp add: match_def)
  have first: "match values whens h = Inr r"
    if k: "k < length whens" and pos: "(whens ! k) h values = Inr (PositiveMatch r)" and tr: "truthy r"
      and before: "\<forall>j<k. \<forall>r'. (whens ! j) h values = Inr (PositiveMatch r') \<longrightarrow> \<not> truthy r'"
    for k r
  proof -
    have mk: "ms ! k = PositiveMatch r"
      using nth [OF k] pos by simp
    have "\<not> selected (ms ! j)" if "j < k" for j
      using that before k nth [of j] by (auto simp: selected_iff)
    with mk tr k len have "find selected ms = Some (PositiveMatch r)"
      by (auto simp: find_Some_iff)
    with m show ?thesis by simp
  qed
  have none: "match values whens h = Inr Undefined"
    if "\<forall>k<length whens. \<forall>r'. (whens ! k) h values = Inr (PositiveMatch r') \<longrightarrow> \<not> truthy r'"
  proof -
    have "\<not> selected (ms ! k)" if "k < length ms" for k
      using that \<open>\<forall>k<length whens. _\<close> len nth [of k] by (auto simp: selected_iff)
    then have "find selected ms = None"
      by (auto simp: find_None_iff in_set_conv_nth)
    with m show ?thesis by simp
  qed
  have "\<forall>k r. k < length whens \<and> (whens ! k) h values = Inr (PositiveMatch r) \<and> truthy r
            \<and> (\<forall>j<k. \<forall>r'. (whens ! j) h values = Inr (PositiveMatch r') \<longrightarrow> \<not> truthy r')
          \<longrightarrow> match values whens h = Inr r"
    using first by blast
  with none show ?thesis by simp
qed

text \<open>
  The two scenarios of the specification: a first arm whose result is the falsy 0 is
  passed over, and of two arms that both qualify the first one wins.
\<close>

theorem match_first_qualifying_witness:
  "match [Str ''x''] [when_arm [underscore] (Num (Finite 0)), when_arm [underscore] (Str ''fallback'')] []
     = Inr (Str ''fallback'')
   \<and> match [Num (Finite 1), Num (Finite 2)]
       [when_arm [Num (Finite 1), Num (Finite 2)] (Str ''A''),
        when_arm [Num (Finite 1), Num (Finite 2)] (Str ''B'')] []
     = Inr (Str ''A'')
   \<and> match [Str ''x''] [when_arm [Str ''y''] (Str ''A'')] [] = Inr Undefined"
proof -
  note ev = when_arm_def when_loop.simps [of _ _ _ _ 0] when_loop.simps [of _ _ _ _ "Suc 0"]
    when_loop.simps [of _ _ _ _ "Suc (Suc 0)"]
    when_body_def index_def WILDCARD_VALUE_def underscore_def opt_chain_def strict_eq_def
  let ?w1 = "[when_arm [underscore] (Num (Finite 0)), when_arm [underscore] (Str ''fallback'')]"
  let ?w2 = "[when_arm [Num (Finite 1), Num (Finite 2)] (Str ''A''),
        when_arm [Num (Finite 1), Num (Finite 2)] (Str ''B'')]"
  let ?w3 = "[when_arm [Str ''y''] (Str ''A'')]"
  have h1: "\<forall>w\<in>set ?w1. \<exists>m. w [] [Str ''x''] = Inr m"
    and h2: "\<forall>w\<in>set ?w2. \<exists>m. w [] [Num (Finite 1), Num (Finite 2)] = Inr m"
    and h3: "\<forall>w\<in>set ?w3. \<exists>m. w [] [Str ''x''] = Inr m"
    by (simp_all add: ev)
  have "match [Str ''x''] ?w1 [] = Inr (Str ''fallback'')"
    using match_first_qualifying [OF h1, THEN conjunct1, rule_format, of 1 "Str ''fallback''"]
    by (simp add: ev)
  moreover have "match [Num (Finite 1), Num (Finite 2)] ?w2 [] = Inr (Str ''A'')"
    using match_first_qualifying [OF h2, THEN conjunct1, rule_format, of 0 "Str ''A''"]
    by (simp add: ev)
  moreover have "match [Str ''x''] ?w3 [] = Inr Undefined"
    using match_first_qualifying [OF h3, THEN conjunct2, THEN conjunct1]
    by (simp add: ev)
  ultimately show ?thesis by simp
qed

subsection \<open>No exception on documented input\<close>

lemma either_well_formed: "well_formed (snd (either elements h)) (fst (either elements h))"
  using either_is_operation [of elements h] by (simp add: well_formed_def is_operation_def)

lemma neither_well_formed: "well_formed (snd (neither elements h)) (fst (neither elements h))"
  using neither_is_operation [of elements h] by (simp add: well_formed_def is_operation_def)

lemma when_body_well_formed:
  assumes "well_formed h (index pattern i)"
  shows "when_body pattern h vs i = Inr Continue \<or> when_body pattern h vs i = Inr (Return NegativeMatch)"
proof (cases "index pattern i = WILDCARD_VALUE")
  case True
  then show ?thesis by (simp add: when_body_wildcard)
next
  case False
  show ?thesis
  proof (cases "tagged h (index pattern i)")
    case False
    with \<open>index pattern i \<noteq> WILDCARD_VALUE\<close> show ?thesis
      by (simp add: when_body_literal)
  next
    case True
    with assms obtain es where es: "as_array h (prop_of h (index pattern i) ''elements'') = Some es"
      by (auto simp: well_formed_def)
    from True consider "is_operation h (index pattern i) ''either'' es"
      | "is_operation h (index pattern i) ''neither'' es"
      using es by (auto simp: tagged_def is_operation_def)
    then show ?thesis
    proof cases
      case 1
      then show ?thesis by (simp add: when_body_either)
    next
      case 2
      then show ?thesis by (simp add: when_body_neither)
    qed
  qed
qed

lemma when_arm_well_formed:
  assumes "\<forall>p\<in>set pattern. well_formed h p"
  shows "when_arm pattern result h vs = Inr NegativeMatch
    \<or> when_arm pattern result h vs = Inr (PositiveMatch result)"
proof (cases "length pattern = length vs")
  case False
  then show ?thesis by (simp add: when_arm_def)
next
  case True
  have "\<exists>s. when_body pattern h vs j = Inr s" if "j < length pattern" for j
  proof -
    have "well_formed h (index pattern j)"
      using assms that by (simp add: index_nth)
    then show ?thesis
      using when_body_well_formed [of h pattern j vs] by auto
  qed
  then obtain m where m: "when_loop pattern result h vs 0 = Inr m"
    using when_loop_no_raise [of 0 pattern h vs result] by auto
  then have "m = NegativeMatch \<or> m = PositiveMatch result"
    using when_loop_range [of pattern result h vs 0] by auto
  with m True show ?thesis
    by (auto simp: when_arm_def)
qed

text \<open>
  Claim C7. On documented input nothing raises. A matcher built from a pattern of
  literals, wildcards and well-formed descriptors returns, for every value tuple, the
  negative match or the positive match with its result; \<^verbatim>\<open>match\<close> over arms built
  from such patterns returns a value. Every element that is not tagged as a descriptor
  is admitted, and what \<^verbatim>\<open>either\<close> and \<^verbatim>\<open>neither\<close> build is well formed.
\<close>

theorem no_exception:
  "((\<forall>p\<in>set pattern. well_formed h p) \<longrightarrow>
      when_arm pattern result h values = Inr NegativeMatch
      \<or> when_arm pattern result h values = Inr (PositiveMatch result))
   \<and> ((\<forall>(p, r)\<in>set arms. \<forall>e\<in>set p. well_formed h e) \<longrightarrow>
        (\<exists>v. match values (map (\<lambda>(p, r). when_arm p r) arms) h = Inr v))
   \<and> (\<not> tagged h e \<longrightarrow> well_formed h e)
   \<and> well_formed (snd (either elements h0)) (fst (either elements h0))
   \<and> well_formed (snd (neither elements h0)) (fst (neither elements h0))"
proof -
  have "\<exists>v. match values (map (\<lambda>(p, r). when_arm p r) arms) h = Inr v"
    if wf: "\<forall>(p, r)\<in>set arms. \<forall>e\<in>set p. well_formed h e"
  proof -
    have "\<forall>w\<in>set (map (\<lambda>(p, r). when_arm p r) arms). \<exists>m. w h values = Inr m"
    proof
      fix w assume "w \<in> set (map (\<lambda>(p, r). when_arm p r) arms)"
      then obtain p r where "(p, r) \<in> set arms" and w: "w = when_arm p r"
        by auto
      with wf have "\<forall>e\<in>set p. well_formed h e" by auto
      then show "\<exists>m. w h values = Inr m"
        using when_arm_well_formed [of p h r "values"] w by auto
    qed
    then obtain ms where "map_whens (map (\<lambda>(p, r). when_arm p r) arms) h values = Inr ms"
      using map_whens_total by blast
    then show ?thesis by (simp add: match_def)
  qed
  moreover have "\<not> tagged h e \<longrightarrow> well_formed h e"
    by (simp add: well_formed_def)
  moreover have "(\<forall>p\<in>set pattern. well_formed h p) \<longrightarrow>
      when_arm pattern result h values = Inr NegativeMatch
      \<or> when_arm pattern result h values = Inr (PositiveMatch result)"
    using when_arm_well_formed [of pattern h result "values"] by blast
  ultimately show ?thesis
    using either_well_formed [of elements h0] neither_well_formed [of elements h0]
    by blast
qed

text \<open>
  A pattern of a literal, the wildcard and an \<^verbatim>\<open>either(1, 2)\<close> descriptor,
  against three values and against none.
\<close>

theorem no_exception_witness:
  "(when_arm [Null, underscore, fst (either [Num (Finite 1), Num (Finite 2)] [])] (Str ''R'')
        (snd (either [Num (Finite 1), Num (Finite 2)] [])) [Null, Bool True, Num (Finite 3)]
      = Inr NegativeMatch
    \<or> when_arm [Null, underscore, fst (either [Num (Finite 1), Num (Finite 2)] [])] (Str ''R'')
        (snd (either [Num (Finite 1), Num (Finite 2)] [])) [Null, Bool True, Num (Finite 3)]
      = Inr (PositiveMatch (Str ''R'')))
   \<and> (\<exists>v. match [Null, Bool True, Num (Finite 3)]
         (map (\<lambda>(p, r). when_arm p r)
           [([Null, underscore, fst (either [Num (Finite 1), Num (Finite 2)] [])], Str ''R'')])
         (snd (either [Num (Finite 1), Num (Finite 2)] [])) = Inr v)"
proof -
  let ?d = "fst (either [Num (Finite 1), Num (Finite 2)] [])"
  let ?h = "snd (either [Num (Finite 1), Num (Finite 2)] [])"
  have d: "well_formed ?h ?d"
    by (rule either_well_formed)
  have l: "well_formed ?h Null" and u: "well_formed ?h underscore"
    by (simp_all add: well_formed_def tagged_def opt_chain_def underscore_def WILDCARD_VALUE_def)
  show ?thesis
    using no_exception [of "[Null, underscore, ?d]" ?h "Str ''R''" "[Null, Bool True, Num (Finite 3)]"
        "[([Null, underscore, ?d], Str ''R'')]" Null "[]" "[]"] d l u
    by simp
qed

subsection \<open>Termination\<close>

lemma when_loop_terminates_aux:
  "length pattern - i = n \<Longrightarrow> when_loop_dom (pattern, result, h, vs, i)"
proof (induction n arbitrary: i)
  case 0
  show ?case
  proof (rule when_loop.domintros)
    assume "i < length pattern"
    with "0.prems" have False by simp
    then show "when_loop_dom (pattern, result, h, vs, Suc i)" ..
  qed
next
  case (Suc n)
  show ?case
  proof (rule when_loop.domintros)
    assume "i < length pattern"
    with Suc.prems have "length pattern - Suc i = n" by simp
    then show "when_loop_dom (pattern, result, h, vs, Suc i)"
      by (rule Suc.IH)
  qed
qed

lemma match_range:
  "match vs (map (\<lambda>(p, r). when_arm p r) arms) h
     \<in> insert (Inl TypeError) (insert (Inr Undefined) ((\<lambda>(p, r). Inr r) ` set arms))"
proof (cases "map_whens (map (\<lambda>(p, r). when_arm p r) arms) h vs")
  case (Inl e)
  then show ?thesis by (cases e) (simp add: match_def)
next
  case (Inr ms)
  then have len: "length ms = length arms"
    and nth: "\<And>k. k < length arms \<Longrightarrow> (case arms ! k of (p, r) \<Rightarrow> when_arm p r) h vs = Inr (ms ! k)"
    by (simp_all add: map_whens_Inr_iff list_all2_conv_all_nth)
  show ?thesis
  proof (cases "find selected ms")
    case None
    with Inr show ?thesis by (simp add: match_def)
  next
    case (Some m)
    then obtain k where k: "k < length ms" and sel: "selected (ms ! k)" and m: "m = ms ! k"
      by (auto simp: find_Some_iff)
    obtain p r where a: "arms ! k = (p, r)"
      by (cases "arms ! k")
    from sel obtain r' where r': "ms ! k = PositiveMatch r'"
      by (auto simp: selected_iff)
    have "when_arm p r h vs = Inr (PositiveMatch r')"
      using nth [of k] k len a r' by simp
    then have "r' = r"
      using when_loop_range [of p r h vs 0]
      by (auto simp: when_arm_def split: if_splits)
    with Inr Some m r' have "match vs (map (\<lambda>(p, r). when_arm p r) arms) h = Inr r"
      by (simp add: match_def)
    moreover have "(p, r) \<in> set arms"
      using a k len by (metis nth_mem)
    ultimately show ?thesis by force
  qed
qed

text \<open>
  Claim C8. Every call terminates. The loop of the matcher is the only recursion of
  the engine that is not a traversal of a list: its domain predicate, the set of
  arguments on which the recursion comes to an end, holds of every argument. So a
  matcher always returns one of three outcomes, and \<^verbatim>\<open>match\<close> over arms built by
  \<^verbatim>\<open>when\<close> always returns \<^verbatim>\<open>undefined\<close> or the result of one of its arms,
  or raises; the two constructors allocate two objects and return.
\<close>

theorem engine_terminates:
  "when_loop_dom (pattern, result, h, values, i)
   \<and> when_arm pattern result h values
       \<in> {Inl TypeError, Inr NegativeMatch, Inr (PositiveMatch result)}
   \<and> match values (map (\<lambda>(p, r). when_arm p r) arms) h
       \<in> insert (Inl TypeError) (insert (Inr Undefined) ((\<lambda>(p, r). Inr r) ` set arms))
   \<and> length (snd (either elements h)) = length h + 2
   \<and> length (snd (neither elements h)) = length h + 2"
proof -
  have "when_loop_dom (pattern, result, h, values, i)"
    by (rule when_loop_terminates_aux) (rule refl)
  moreover have "when_arm pattern result h values
       \<in> {Inl TypeError, Inr NegativeMatch, Inr (PositiveMatch result)}"
    using when_loop_range [of pattern result h "values" 0] by (simp add: when_arm_def)
  moreover have "length (snd (either elements h)) = length h + 2"
    and "length (snd (neither elements h)) = length h + 2"
    by (simp_all add: either_def neither_def operation_def alloc_def)
  ultimately show ?thesis
    using match_range [of "values" arms h] by simp
qed

end
